theory Spec2Isabelle
  imports Complex_Main "HOL-Library.AList" "HOL-Library.Multiset"
begin

section \<open>JavaScript strings and values\<close>

text \<open>
  A JavaScript string is a sequence of UTF-16 code units; a code unit is modelled by its
  number. Literals of the program are written with \<open>str\<close>.
\<close>

type_synonym jsstring = "nat list"

definition str :: "string \<Rightarrow> jsstring" where
  "str s = map of_char s"

text \<open>
  Numbers other than NaN. The finite doubles are modelled by the reals they denote
  (rounding is not modelled; of a difference only the sign is ever used, and the sign of
  a difference of two doubles is the sign of the exact difference). NaN is the value
  \<open>None\<close> of \<open>jsnum option\<close>: \<open>parseCSV\<close> never stores it.
\<close>

datatype jsnum = NegInf | Fin real | PosInf

datatype jsval = Undefined | Str jsstring | Num jsnum

text \<open>
  A plain object: its own properties in creation order (the order in which the language
  enumerates them is \<open>Object_values\<close> below, the one place where the program
  enumerates). \<open>obj_get\<close> is a property read \<open>o[k]\<close> for a key that
  \<open>Object.prototype\<close> does not define (the program reads \<open>Scrape_Date\<close>,
  \<open>Country\<close>, \<open>Gold\<close> and keys that are own properties).
\<close>

type_synonym jsobj = "(jsstring \<times> jsval) list"

definition obj_get :: "jsobj \<Rightarrow> jsstring \<Rightarrow> jsval" where
  "obj_get ob k = (case map_of ob k of None \<Rightarrow> Undefined | Some v \<Rightarrow> v)"

text \<open>
  \<open>Object.fromEntries\<close> defines one data property per entry, in order; a key that is
  already there keeps its place and takes the new value.
\<close>

definition fromEntries :: "(jsstring \<times> jsval) list \<Rightarrow> jsobj" where
  "fromEntries es = foldl (\<lambda>ob (k, v). AList.update k v ob) [] es"

section \<open>String operations\<close>

text \<open>
  \<open>String.prototype.trim\<close> strips WhiteSpace and LineTerminator code units: TAB, LF, VT,
  FF, CR, SP, NBSP, U+1680, U+2000 to U+200A, U+2028, U+2029, U+202F, U+205F, U+3000,
  U+FEFF.
\<close>

definition is_ws :: "nat \<Rightarrow> bool" where
  "is_ws c \<longleftrightarrow> c \<in> {9, 10, 11, 12, 13, 32, 160, 5760, 8232, 8233, 8239, 8287, 12288, 65279}
     \<or> (8192 \<le> c \<and> c \<le> 8202)"

definition trim :: "jsstring \<Rightarrow> jsstring" where
  "trim s = rev (dropWhile is_ws (rev (dropWhile is_ws s)))"

text \<open>\<open>s.replace(/\r\n/g, "\n")\<close> and \<open>s.replace(/\r/g, "\n")\<close>.\<close>

fun replace_crlf :: "jsstring \<Rightarrow> jsstring" where
  "replace_crlf (c # d # cs) =
     (if c = 13 \<and> d = 10 then 10 # replace_crlf cs else c # replace_crlf (d # cs))"
| "replace_crlf cs = cs"

definition replace_cr :: "jsstring \<Rightarrow> jsstring" where
  "replace_cr s = map (\<lambda>c. if c = 13 then 10 else c) s"

text \<open>\<open>s.split(sep)\<close> for a separator of one code unit; the empty string gives \<open>[""]\<close>.\<close>

fun split_on :: "nat \<Rightarrow> jsstring \<Rightarrow> jsstring list" where
  "split_on sep [] = [[]]"
| "split_on sep (c # cs) =
     (if c = sep then [] # split_on sep cs
      else (let r = split_on sep cs in (c # hd r) # tl r))"

section \<open>The CSV parser\<close>

datatype js_error = TypeError | Error jsstring

text \<open>
  \<open>Number\<close> is the string-to-number conversion of the language, a parameter here;
  \<open>None\<close> is NaN. The body of the inner \<open>headers.map\<close> callback, for a value \<open>val\<close>:
  \<^verbatim>\<open>const num = Number(val); return [h, isNaN(num) || val === "" ? val : num];\<close>
\<close>

definition coerce :: "(jsstring \<Rightarrow> jsnum option) \<Rightarrow> jsstring \<Rightarrow> jsval" where
  "coerce Number val =
     (case Number val of
        None \<Rightarrow> Str val
      | Some num \<Rightarrow> if val = [] then Str val else Num num)"

text \<open>\<open>values[i] ?? ""\<close>: an index past the end reads \<open>undefined\<close>.\<close>

definition value_at :: "jsstring list \<Rightarrow> nat \<Rightarrow> jsstring" where
  "value_at vals i = (if i < length vals then vals ! i else [])"

definition row_entries ::
  "(jsstring \<Rightarrow> jsnum option) \<Rightarrow> jsstring list \<Rightarrow> jsstring list \<Rightarrow> (jsstring \<times> jsval) list" where
  "row_entries Number headers vals =
     map (\<lambda>(h, i). (h, coerce Number (value_at vals i))) (zip headers [0..<length headers])"

definition parse_line :: "(jsstring \<Rightarrow> jsnum option) \<Rightarrow> jsstring list \<Rightarrow> jsstring \<Rightarrow> jsobj" where
  "parse_line Number headers line =
     (let vals = map trim (split_on 44 line)
      in fromEntries (row_entries Number headers vals))"

text \<open>
  The destructuring \<open>[headerLine, ...lines]\<close> of an empty array would leave
  \<open>headerLine\<close> undefined and \<open>headerLine.split\<close> would throw a TypeError (its message is
  the engine's and is not modelled).
\<close>

definition parseCSV :: "(jsstring \<Rightarrow> jsnum option) \<Rightarrow> jsstring \<Rightarrow> js_error + jsobj list" where
  "parseCSV Number text =
     (let normalized = replace_cr (replace_crlf (trim text))
      in case split_on 10 normalized of
           [] \<Rightarrow> Inl TypeError
         | headerLine # lines \<Rightarrow>
             (let headers = map trim (split_on 44 headerLine)
              in Inr (map (parse_line Number headers) (filter (\<lambda>l. trim l \<noteq> []) lines))))"

text \<open>Lines joined by line feeds, to write a text from its lines.\<close>

fun join_lines :: "jsstring list \<Rightarrow> jsstring" where
  "join_lines [] = []"
| "join_lines [l] = l"
| "join_lines (l # m # ls) = l @ 10 # join_lines (m # ls)"

section \<open>The history pivot\<close>

text \<open>
  \<open>new Date(v).toLocaleDateString("en-US", {month: "short", day: "2-digit"})\<close>. How a
  value is read as a date, and the calendar day it falls on in the local time zone, is the
  parameter \<open>date_of\<close> (\<open>None\<close> is an invalid date); the en-US pattern is the month
  abbreviation, a space and two digits of the day.
\<close>

datatype month = Jan | Feb | Mar | Apr | May | Jun | Jul | Aug | Sep | Oct | Nov | Dec

fun month_abbr :: "month \<Rightarrow> jsstring" where
  "month_abbr Jan = str ''Jan''"
| "month_abbr Feb = str ''Feb''"
| "month_abbr Mar = str ''Mar''"
| "month_abbr Apr = str ''Apr''"
| "month_abbr May = str ''May''"
| "month_abbr Jun = str ''Jun''"
| "month_abbr Jul = str ''Jul''"
| "month_abbr Aug = str ''Aug''"
| "month_abbr Sep = str ''Sep''"
| "month_abbr Oct = str ''Oct''"
| "month_abbr Nov = str ''Nov''"
| "month_abbr Dec = str ''Dec''"

definition two_digit :: "nat \<Rightarrow> jsstring" where
  "two_digit d = [48 + d div 10 mod 10, 48 + d mod 10]"

definition format_label :: "(jsval \<Rightarrow> (month \<times> nat) option) \<Rightarrow> jsval \<Rightarrow> jsstring" where
  "format_label date_of v =
     (case date_of v of
        None \<Rightarrow> str ''Invalid Date''
      | Some (m, d) \<Rightarrow> month_abbr m @ [32] @ two_digit d)"

text \<open>
  A value used as a property key: a string is the key, a number is converted by the
  language's number-to-string conversion (the parameter \<open>num_to_string\<close>).
\<close>

definition to_key :: "(jsnum \<Rightarrow> jsstring) \<Rightarrow> jsval \<Rightarrow> jsstring" where
  "to_key num_to_string v =
     (case v of Undefined \<Rightarrow> str ''undefined'' | Str s \<Rightarrow> s | Num n \<Rightarrow> num_to_string n)"

text \<open>
  The assignment \<open>point[k] = v\<close> on an object made by an object literal, for a primitive
  \<open>v\<close>. The key \<open>__proto__\<close> is not an own property of such an object: the assignment
  reaches the setter that \<open>Object.prototype\<close> defines, which ignores a value that is
  neither an object nor null. Every other key is created or overwritten (the data
  properties of \<open>Object.prototype\<close> are writable).
\<close>

definition obj_assign :: "jsstring \<Rightarrow> jsval \<Rightarrow> jsobj \<Rightarrow> jsobj" where
  "obj_assign k v ob = (if k = str ''__proto__'' then ob else AList.update k v ob)"

text \<open>
  One iteration of the loop over the rows. A label starts with a capital letter, so it is
  never a name that \<open>Object.prototype\<close> defines: \<open>byDate[label]\<close> is an own property
  (an object, truthy) or undefined.
\<close>

definition pivot_step ::
  "(jsval \<Rightarrow> (month \<times> nat) option) \<Rightarrow> (jsnum \<Rightarrow> jsstring) \<Rightarrow>
   (jsstring \<times> jsobj) list \<Rightarrow> jsobj \<Rightarrow> (jsstring \<times> jsobj) list" where
  "pivot_step date_of num_to_string byDate row =
     (let label = format_label date_of (obj_get row (str ''Scrape_Date''));
          byDate1 = (case map_of byDate label of
                       None \<Rightarrow> byDate @ [(label, [(str ''date'', Str label)])]
                     | Some _ \<Rightarrow> byDate)
      in case map_of byDate1 label of
           None \<Rightarrow> byDate1
         | Some point \<Rightarrow>
             AList.update label
               (obj_assign (to_key num_to_string (obj_get row (str ''Country'')))
                  (obj_get row (str ''Gold'')) point)
               byDate1)"

text \<open>
  \<open>Object.values\<close> lists the own properties whose key is an array index (a canonical
  decimal numeral below \<open>2^32 - 1\<close>) first, in ascending numeric order, and then the
  other string keys in creation order.
\<close>

definition digits_value :: "jsstring \<Rightarrow> nat" where
  "digits_value s = foldl (\<lambda>a c. 10 * a + (c - 48)) 0 s"

definition is_array_index :: "jsstring \<Rightarrow> bool" where
  "is_array_index s \<longleftrightarrow>
     s \<noteq> [] \<and> list_all (\<lambda>c. 48 \<le> c \<and> c \<le> 57) s \<and> (s = [48] \<or> hd s \<noteq> 48)
     \<and> digits_value s < 2 ^ 32 - 1"

definition Object_values :: "(jsstring \<times> 'a) list \<Rightarrow> 'a list" where
  "Object_values ob =
     map snd (sort_key (\<lambda>p. digits_value (fst p)) (filter (\<lambda>p. is_array_index (fst p)) ob))
     @ map snd (filter (\<lambda>p. \<not> is_array_index (fst p)) ob)"

definition byDate_of ::
  "(jsval \<Rightarrow> (month \<times> nat) option) \<Rightarrow> (jsnum \<Rightarrow> jsstring) \<Rightarrow> jsobj list \<Rightarrow>
   (jsstring \<times> jsobj) list" where
  "byDate_of date_of num_to_string rows = foldl (pivot_step date_of num_to_string) [] rows"

definition buildHistoryChartData ::
  "(jsval \<Rightarrow> (month \<times> nat) option) \<Rightarrow> (jsnum \<Rightarrow> jsstring) \<Rightarrow> jsobj list \<Rightarrow> jsobj list" where
  "buildHistoryChartData date_of num_to_string rows =
     Object_values (byDate_of date_of num_to_string rows)"

text \<open>
  To state what the pivot computes: the label and the country key of a row, the
  assignment a row makes to its point, and the distinct elements of a list in the order
  of their first occurrence.
\<close>

definition label_of :: "(jsval \<Rightarrow> (month \<times> nat) option) \<Rightarrow> jsobj \<Rightarrow> jsstring" where
  "label_of date_of row = format_label date_of (obj_get row (str ''Scrape_Date''))"

definition country_key :: "(jsnum \<Rightarrow> jsstring) \<Rightarrow> jsobj \<Rightarrow> jsstring" where
  "country_key num_to_string row = to_key num_to_string (obj_get row (str ''Country''))"

definition assign_row :: "(jsnum \<Rightarrow> jsstring) \<Rightarrow> jsobj \<Rightarrow> jsobj \<Rightarrow> jsobj" where
  "assign_row num_to_string row point =
     obj_assign (country_key num_to_string row) (obj_get row (str ''Gold'')) point"

fun first_seen :: "'a list \<Rightarrow> 'a list" where
  "first_seen [] = []"
| "first_seen (x # xs) = x # filter (\<lambda>y. y \<noteq> x) (first_seen xs)"

section \<open>Sorting by gold\<close>

text \<open>\<open>ToNumber\<close> of a stored value, and the subtraction \<open>x - y\<close>; \<open>None\<close> is NaN.\<close>

definition to_number :: "(jsstring \<Rightarrow> jsnum option) \<Rightarrow> jsval \<Rightarrow> jsnum option" where
  "to_number Number v = (case v of Undefined \<Rightarrow> None | Str s \<Rightarrow> Number s | Num n \<Rightarrow> Some n)"

fun num_sub :: "jsnum \<Rightarrow> jsnum \<Rightarrow> jsnum option" where
  "num_sub (Fin a) (Fin b) = Some (Fin (a - b))"
| "num_sub PosInf PosInf = None"
| "num_sub NegInf NegInf = None"
| "num_sub PosInf _ = Some PosInf"
| "num_sub NegInf _ = Some NegInf"
| "num_sub (Fin a) PosInf = Some NegInf"
| "num_sub (Fin a) NegInf = Some PosInf"

definition js_sub :: "(jsstring \<Rightarrow> jsnum option) \<Rightarrow> jsval \<Rightarrow> jsval \<Rightarrow> jsnum option" where
  "js_sub Number x y =
     (case to_number Number x of
        None \<Rightarrow> None
      | Some a \<Rightarrow> (case to_number Number y of None \<Rightarrow> None | Some b \<Rightarrow> num_sub a b))"

text \<open>The comparator \<open>(a, b) => b.Gold - a.Gold\<close>.\<close>

definition gold_cmp :: "(jsstring \<Rightarrow> jsnum option) \<Rightarrow> jsobj \<Rightarrow> jsobj \<Rightarrow> jsnum option" where
  "gold_cmp Number a b = js_sub Number (obj_get b (str ''Gold'')) (obj_get a (str ''Gold''))"

text \<open>
  \<open>Array.prototype.sort\<close> places \<open>x\<close> after \<open>y\<close> when the comparator's result for
  \<open>(x, y)\<close> is positive; NaN counts as zero. The sort is stable. For a comparator that is
  not a consistent ordering the language leaves the order to the implementation; the
  model is a stable insertion sort, and the properties below are stated for rows whose
  comparator is consistent.
\<close>

fun positive :: "jsnum option \<Rightarrow> bool" where
  "positive None = False"
| "positive (Some NegInf) = False"
| "positive (Some (Fin r)) = (0 < r)"
| "positive (Some PosInf) = True"

fun insert_cmp :: "('a \<Rightarrow> 'a \<Rightarrow> jsnum option) \<Rightarrow> 'a \<Rightarrow> 'a list \<Rightarrow> 'a list" where
  "insert_cmp cmp x [] = [x]"
| "insert_cmp cmp x (y # ys) =
     (if positive (cmp x y) then y # insert_cmp cmp x ys else x # y # ys)"

definition js_sort :: "('a \<Rightarrow> 'a \<Rightarrow> jsnum option) \<Rightarrow> 'a list \<Rightarrow> 'a list" where
  "js_sort cmp xs = foldr (insert_cmp cmp) xs []"

text \<open>The order of the numbers, to state what sorted means.\<close>

fun num_less :: "jsnum \<Rightarrow> jsnum \<Rightarrow> bool" where
  "num_less (Fin a) (Fin b) = (a < b)"
| "num_less NegInf NegInf = False"
| "num_less PosInf PosInf = False"
| "num_less NegInf _ = True"
| "num_less _ PosInf = True"
| "num_less _ _ = False"

text \<open>Two stored values that are numbers, the first not less than the second.\<close>

fun gold_ge :: "jsval \<Rightarrow> jsval \<Rightarrow> bool" where
  "gold_ge (Num x) (Num y) = (\<not> num_less x y)"
| "gold_ge _ _ = False"

text \<open>A comparator that orders the elements of \<open>A\<close> by their keys \<open>g\<close>, descending.\<close>

definition by_key_desc :: "('a \<Rightarrow> 'a \<Rightarrow> jsnum option) \<Rightarrow> ('a \<Rightarrow> jsnum) \<Rightarrow> 'a set \<Rightarrow> bool" where
  "by_key_desc cmp g A \<longleftrightarrow> (\<forall>x \<in> A. \<forall>y \<in> A. positive (cmp x y) \<longleftrightarrow> num_less (g x) (g y))"

section \<open>The dashboard state and the load\<close>

text \<open>
  A promise settles as fulfilled with a value or rejected with an error. \<open>Error m\<close> is
  an error object with the message \<open>m\<close>: the ones \<open>loadData\<close> throws, and the reasons
  \<open>fetch\<close> and \<open>text()\<close> reject with.
\<close>

datatype 'a settled = Fulfilled 'a | Rejected js_error

record response =
  ok :: bool
  status :: nat
  text_body :: "jsstring settled"

text \<open>
  \<open>Promise.all\<close> of two promises rejects with the reason of the one that rejects first;
  which one that is when both reject is an input (\<open>second_first\<close>).
\<close>

fun promise_all2 :: "bool \<Rightarrow> 'a settled \<Rightarrow> 'b settled \<Rightarrow> ('a \<times> 'b) settled" where
  "promise_all2 second_first (Fulfilled x) (Fulfilled y) = Fulfilled (x, y)"
| "promise_all2 second_first (Rejected e) (Fulfilled y) = Rejected e"
| "promise_all2 second_first (Fulfilled x) (Rejected e) = Rejected e"
| "promise_all2 second_first (Rejected e1) (Rejected e2) =
     Rejected (if second_first then e2 else e1)"

record network =
  latest_fetch :: "response settled"
  history_fetch :: "response settled"
  history_fetch_first :: bool
  history_text_first :: bool

text \<open>
  The state of the component. \<open>fetchError\<close> holds \<open>err.message\<close>, modelled by the error
  it is the message of; \<open>None\<close> is null, also in \<open>lastUpdated\<close>.
\<close>

record dashboard =
  loaded :: bool
  fetchError :: "js_error option"
  latestData :: "jsobj list"
  historyData :: "jsobj list"
  countries :: "jsval list"
  selectedCountries :: "jsval list"
  lastUpdated :: "jsval option"

definition initial_state :: dashboard where
  "initial_state = \<lparr>loaded = False, fetchError = None, latestData = [], historyData = [],
     countries = [], selectedCountries = [], lastUpdated = None\<rparr>"

text \<open>The decimal numeral of a status code, as the template literal renders it.\<close>

fun decimal :: "nat \<Rightarrow> jsstring" where
  "decimal n = (if n < 10 then [48 + n] else decimal (n div 10) @ [48 + n mod 10])"

declare decimal.simps [simp del]

text \<open>\<open>latest[0]?.Scrape_Date ?? null\<close>.\<close>

definition first_scrape_date :: "jsobj list \<Rightarrow> jsval option" where
  "first_scrape_date latest =
     (case latest of
        [] \<Rightarrow> None
      | r # _ \<Rightarrow> (case obj_get r (str ''Scrape_Date'') of Undefined \<Rightarrow> None | v \<Rightarrow> Some v))"

definition top5_of :: "(jsstring \<Rightarrow> jsnum option) \<Rightarrow> jsobj list \<Rightarrow> jsval list" where
  "top5_of Number latest =
     map (\<lambda>r. obj_get r (str ''Country'')) (take 5 (js_sort (gold_cmp Number) latest))"

text \<open>
  The body of the \<open>try\<close> block: the first exception, or the five values the state is set
  to. All the setters run after the last step that can throw.
\<close>

definition load_try ::
  "(jsstring \<Rightarrow> jsnum option) \<Rightarrow> (jsval \<Rightarrow> (month \<times> nat) option) \<Rightarrow> (jsnum \<Rightarrow> jsstring) \<Rightarrow>
   network \<Rightarrow> dashboard \<Rightarrow> js_error + dashboard" where
  "load_try Number date_of num_to_string net st =
     (case promise_all2 (history_fetch_first net) (latest_fetch net) (history_fetch net) of
        Rejected e \<Rightarrow> Inl e
      | Fulfilled (latestRes, historyRes) \<Rightarrow>
          if \<not> ok latestRes then Inl (Error (str ''latest CSV: '' @ decimal (status latestRes)))
          else if \<not> ok historyRes
            then Inl (Error (str ''history CSV: '' @ decimal (status historyRes)))
          else
            (case promise_all2 (history_text_first net)
                    (text_body latestRes) (text_body historyRes) of
               Rejected e \<Rightarrow> Inl e
             | Fulfilled (latestText, historyText) \<Rightarrow>
                 (case parseCSV Number latestText of
                    Inl e \<Rightarrow> Inl e
                  | Inr latest \<Rightarrow>
                      (case parseCSV Number historyText of
                         Inl e \<Rightarrow> Inl e
                       | Inr history \<Rightarrow>
                           (let chartHistory =
                                  buildHistoryChartData date_of num_to_string history;
                                top5 = top5_of Number latest
                            in Inr (st\<lparr>latestData := latest,
                                       historyData := chartHistory,
                                       countries := top5,
                                       selectedCountries := take 3 top5,
                                       lastUpdated := first_scrape_date latest\<rparr>))))))"

text \<open>\<open>try { ... } catch (err) { setFetchError(err.message) } finally { setLoaded(true) }\<close>.\<close>

definition loadData ::
  "(jsstring \<Rightarrow> jsnum option) \<Rightarrow> (jsval \<Rightarrow> (month \<times> nat) option) \<Rightarrow> (jsnum \<Rightarrow> jsstring) \<Rightarrow>
   network \<Rightarrow> dashboard \<Rightarrow> dashboard" where
  "loadData Number date_of num_to_string net st =
     (case load_try Number date_of num_to_string net st of
        Inl err \<Rightarrow> st\<lparr>fetchError := Some err, loaded := True\<rparr>
      | Inr st1 \<Rightarrow> st1\<lparr>loaded := True\<rparr>)"

section \<open>Selecting countries\<close>

text \<open>
  The updater of \<open>toggleCountry\<close>. A stored value is never NaN, so \<open>includes\<close> and
  \<open>!==\<close> both compare as equality of values does.
\<close>

definition toggle :: "jsval \<Rightarrow> jsval list \<Rightarrow> jsval list" where
  "toggle c prev =
     (if c \<in> set prev then filter (\<lambda>x. x \<noteq> c) prev
      else if length prev < 5 then prev @ [c] else prev)"

definition toggleCountry :: "jsval \<Rightarrow> dashboard \<Rightarrow> dashboard" where
  "toggleCountry c st = st\<lparr>selectedCountries := toggle c (selectedCountries st)\<rparr>"

section \<open>Sample inputs\<close>

text \<open>
  \<open>Number\<close> on the empty string and on strings of decimal digits (NaN elsewhere), to run
  the program on examples.
\<close>

definition Number_decimal :: "jsstring \<Rightarrow> jsnum option" where
  "Number_decimal s =
     (if list_all (\<lambda>c. 48 \<le> c \<and> c \<le> 57) s then Some (Fin (real (digits_value s)))
      else None)"

text \<open>A reading of three dates, and the numeral of a natural number.\<close>

definition date_sample :: "jsval \<Rightarrow> (month \<times> nat) option" where
  "date_sample v =
     (if v = Str (str ''2026-02-06'') then Some (Feb, 6)
      else if v = Str (str ''2026-02-07'') then Some (Feb, 7)
      else if v = Str (str ''2026-02-08'') then Some (Feb, 8)
      else None)"

definition num_to_string_sample :: "jsnum \<Rightarrow> jsstring" where
  "num_to_string_sample n =
     (case n of
        NegInf \<Rightarrow> str ''-Infinity''
      | Fin r \<Rightarrow> decimal (nat \<lfloor>r\<rfloor>)
      | PosInf \<Rightarrow> str ''Infinity'')"

text \<open>Two small resources, the records they parse to, and the responses that carry them.\<close>

definition latest_text_sample :: jsstring where
  "latest_text_sample =
     str ''Country,Gold'' @ [10] @ str ''Italy,3'' @ [10] @ str ''Norway,5'' @ [13, 10]
     @ str ''Japan,3'' @ [10] @ str ''China,4'' @ [10]"

definition history_text_sample :: jsstring where
  "history_text_sample =
     str ''Scrape_Date,Country,Gold'' @ [10] @ str ''2026-02-06,Norway,3'' @ [10]
     @ str ''2026-02-06,Italy,2'' @ [10] @ str ''2026-02-07,Norway,5''"

definition latest_rows_sample :: "jsobj list" where
  "latest_rows_sample =
     [[(str ''Country'', Str (str ''Italy'')), (str ''Gold'', Num (Fin 3))],
      [(str ''Country'', Str (str ''Norway'')), (str ''Gold'', Num (Fin 5))],
      [(str ''Country'', Str (str ''Japan'')), (str ''Gold'', Num (Fin 3))],
      [(str ''Country'', Str (str ''China'')), (str ''Gold'', Num (Fin 4))]]"

definition history_rows_sample :: "jsobj list" where
  "history_rows_sample =
     [[(str ''Scrape_Date'', Str (str ''2026-02-06'')), (str ''Country'', Str (str ''Norway'')),
       (str ''Gold'', Num (Fin 3))],
      [(str ''Scrape_Date'', Str (str ''2026-02-06'')), (str ''Country'', Str (str ''Italy'')),
       (str ''Gold'', Num (Fin 2))],
      [(str ''Scrape_Date'', Str (str ''2026-02-07'')), (str ''Country'', Str (str ''Norway'')),
       (str ''Gold'', Num (Fin 5))]]"

definition response_ok :: "jsstring \<Rightarrow> response" where
  "response_ok body = \<lparr>ok = True, status = 200, text_body = Fulfilled body\<rparr>"

definition response_404 :: response where
  "response_404 = \<lparr>ok = False, status = 404, text_body = Fulfilled []\<rparr>"

definition net_sample :: network where
  "net_sample = \<lparr>latest_fetch = Fulfilled (response_ok latest_text_sample),
     history_fetch = Fulfilled (response_ok history_text_sample),
     history_fetch_first = False, history_text_first = False\<rparr>"

definition net_history_404 :: network where
  "net_history_404 = \<lparr>latest_fetch = Fulfilled (response_ok latest_text_sample),
     history_fetch = Fulfilled response_404,
     history_fetch_first = False, history_text_first = False\<rparr>"

definition five_selected :: dashboard where
  "five_selected = initial_state\<lparr>selectedCountries :=
     [Str (str ''A''), Str (str ''B''), Str (str ''C''), Str (str ''D''), Str (str ''E'')]\<rparr>"

text \<open>A history resource with a row whose country is \<open>__proto__\<close>.\<close>

definition history_text_proto :: jsstring where
  "history_text_proto = str ''Scrape_Date,Country,Gold'' @ [10] @ str ''2026-02-06,__proto__,3''"

definition history_rows_proto :: "jsobj list" where
  "history_rows_proto =
     [[(str ''Scrape_Date'', Str (str ''2026-02-06'')), (str ''Country'', Str (str ''__proto__'')),
       (str ''Gold'', Num (Fin 3))]]"

section \<open>Facts about objects and strings\<close>

lemma split_on_nonempty: "split_on sep s \<noteq> []"
  by (induction s) (simp_all add: Let_def)

lemma map_of_fromEntries_aux:
  "map_of (foldl (\<lambda>ob (k, v). AList.update k v ob) acc es) = map_of acc ++ map_of (rev es)"
proof (induction es arbitrary: acc)
  case Nil
  show ?case by simp
next
  case (Cons e es)
  obtain k v where e: "e = (k, v)" by (cases e)
  show ?case
    by (simp add: e Cons.IH update_conv' map_add_upd_left fun_eq_iff map_add_def
        split: option.splits)
qed

lemma map_of_fromEntries: "map_of (fromEntries es) = map_of (rev es)"
  by (simp add: fromEntries_def map_of_fromEntries_aux)

lemma map_of_rev_all:
  assumes "k \<in> fst ` set es" and "\<forall>e \<in> set es. fst e = k \<longrightarrow> snd e = v"
  shows "map_of (rev es) k = Some v"
proof -
  from assms(1) have "k \<in> fst ` set (rev es)" by simp
  then obtain w where w: "map_of (rev es) k = Some w"
    by (metis domD dom_map_of_conv_image_fst)
  then have "(k, w) \<in> set es" using map_of_SomeD by fastforce
  with assms(2) have "w = v" by auto
  with w show ?thesis by simp
qed

lemma map_of_rev_from:
  assumes "i < length es" and "fst (es ! i) = k"
    and "\<forall>j. i \<le> j \<and> j < length es \<and> fst (es ! j) = k \<longrightarrow> snd (es ! j) = v"
  shows "map_of (rev es) k = Some v"
proof -
  let ?d = "drop i es"
  have mem: "es ! i \<in> set ?d"
    using assms(1) by (metis Cons_nth_drop_Suc list.set_intros(1))
  then have "k \<in> fst ` set ?d" using assms(2) by force
  moreover have "\<forall>e \<in> set ?d. fst e = k \<longrightarrow> snd e = v"
  proof
    fix e assume "e \<in> set ?d"
    then obtain m where m: "m < length ?d" "?d ! m = e" by (auto simp: in_set_conv_nth)
    then have "es ! (i + m) = e" "i + m < length es" by auto
    with assms(3) show "fst e = k \<longrightarrow> snd e = v" by (metis le_add1)
  qed
  ultimately have "map_of (rev ?d) k = Some v" by (rule map_of_rev_all)
  moreover have "rev es = rev ?d @ rev (take i es)"
    by (metis append_take_drop_id rev_append)
  ultimately show ?thesis by (simp add: map_add_def)
qed

section \<open>The parser: fields\<close>

lemma length_row_entries: "length (row_entries Number headers vals) = length headers"
  by (simp add: row_entries_def)

lemma nth_row_entries:
  "j < length headers \<Longrightarrow>
   row_entries Number headers vals ! j = (headers ! j, coerce Number (value_at vals j))"
  by (simp add: row_entries_def)

lemma coerce_empty: "coerce Number [] = Str []"
  by (simp add: coerce_def split: option.splits)

lemma coerce_cases:
  "((\<exists>n. coerce Number val = Num n) \<longleftrightarrow> val \<noteq> [] \<and> Number val \<noteq> None)
   \<and> ((\<nexists>n. coerce Number val = Num n) \<longrightarrow> coerce Number val = Str val)"
  by (auto simp: coerce_def split: option.splits)

lemma parseCSV_Inr: "\<exists>records. parseCSV Number text = Inr records"
  by (simp add: parseCSV_def Let_def split_on_nonempty split: list.splits)

text \<open>
  C9. The parser is total: on every text it returns a list of records; the TypeError of
  the destructuring never happens, since \<open>split\<close> returns at least one line.
\<close>

theorem parseCSV_total: "\<exists>records. parseCSV Number text = Inr records"
  by (simp add: parseCSV_def Let_def split_on_nonempty split: list.splits)

text \<open>
  C1. The value a record stores for a column (the last column of that name, when a header
  name is repeated) is a number exactly when the trimmed field is not empty and \<open>Number\<close>
  of it is not NaN; otherwise it is the trimmed field itself, a string. A missing field
  counts as the empty field.
\<close>

theorem parseCSV_field_coercion:
  assumes "i < length headers"
    and "\<forall>j. i < j \<and> j < length headers \<longrightarrow> headers ! j \<noteq> headers ! i"
  shows "let val = value_at (map trim (split_on 44 line)) i;
             stored = obj_get (parse_line Number headers line) (headers ! i)
         in ((\<exists>n. stored = Num n) \<longleftrightarrow> val \<noteq> [] \<and> Number val \<noteq> None)
            \<and> ((\<nexists>n. stored = Num n) \<longrightarrow> stored = Str val)"
proof -
  let ?vals = "map trim (split_on 44 line)"
  let ?es = "row_entries Number headers ?vals"
  have "map_of (rev ?es) (headers ! i) = Some (coerce Number (value_at ?vals i))"
  proof (rule map_of_rev_from [where i = i])
    show "i < length ?es" using assms(1) by (simp add: length_row_entries)
    show "fst (?es ! i) = headers ! i" using assms(1) by (simp add: nth_row_entries)
    show "\<forall>j. i \<le> j \<and> j < length ?es \<and> fst (?es ! j) = headers ! i
            \<longrightarrow> snd (?es ! j) = coerce Number (value_at ?vals i)"
    proof (intro allI impI)
      fix j assume j: "i \<le> j \<and> j < length ?es \<and> fst (?es ! j) = headers ! i"
      then have jl: "j < length headers" by (simp add: length_row_entries)
      with j have "headers ! j = headers ! i" by (simp add: nth_row_entries)
      with assms(2) j jl have "j = i" by (metis le_neq_implies_less)
      then show "snd (?es ! j) = coerce Number (value_at ?vals i)"
        using assms(1) by (simp add: nth_row_entries)
    qed
  qed
  then have "obj_get (parse_line Number headers line) (headers ! i)
             = coerce Number (value_at ?vals i)"
    by (simp add: obj_get_def parse_line_def map_of_fromEntries)
  then show ?thesis
    using coerce_cases [of Number "value_at ?vals i"] by (simp add: Let_def)
qed

theorem parseCSV_field_coercion_witness:
  "(1::nat) < length [str ''Country'', str ''Gold'']
   \<and> (\<exists>n. obj_get (parse_line Number_decimal [str ''Country'', str ''Gold'']
                (str ''Norway, 5 '')) ([str ''Country'', str ''Gold''] ! 1) = Num n)"
proof -
  let ?hs = "[str ''Country'', str ''Gold'']"
  have h1: "(1::nat) < length ?hs" by simp
  have h2: "\<forall>j. (1::nat) < j \<and> j < length ?hs \<longrightarrow> ?hs ! j \<noteq> ?hs ! 1" by auto
  have v: "value_at (map trim (split_on 44 (str ''Norway, 5 ''))) 1 = str ''5''"
    by (simp add: value_at_def trim_def is_ws_def str_def Let_def)
  have n: "Number_decimal (str ''5'') \<noteq> None" "str ''5'' \<noteq> []"
    by (simp_all add: Number_decimal_def str_def)
  have "\<exists>n. obj_get (parse_line Number_decimal ?hs (str ''Norway, 5 '')) (?hs ! 1) = Num n"
    using parseCSV_field_coercion [OF h1 h2, of "str ''Norway, 5 ''" Number_decimal] v n
    by (simp add: Let_def)
  with h1 show ?thesis by blast
qed

text \<open>
  C8. When a data line has fewer values than there are headers, the record stores the
  empty string for each header past the last value.
\<close>

theorem parseCSV_missing_field:
  assumes "i < length headers" and "length (split_on 44 line) \<le> i"
  shows "obj_get (parse_line Number headers line) (headers ! i) = Str []"
proof -
  let ?vals = "map trim (split_on 44 line)"
  let ?es = "row_entries Number headers ?vals"
  have "map_of (rev ?es) (headers ! i) = Some (Str [])"
  proof (rule map_of_rev_from [where i = i])
    show "i < length ?es" using assms(1) by (simp add: length_row_entries)
    show "fst (?es ! i) = headers ! i" using assms(1) by (simp add: nth_row_entries)
    show "\<forall>j. i \<le> j \<and> j < length ?es \<and> fst (?es ! j) = headers ! i
            \<longrightarrow> snd (?es ! j) = Str []"
    proof (intro allI impI)
      fix j assume j: "i \<le> j \<and> j < length ?es \<and> fst (?es ! j) = headers ! i"
      then have "j < length headers" by (simp add: length_row_entries)
      moreover have "value_at ?vals j = []" using j assms(2) by (simp add: value_at_def)
      ultimately show "snd (?es ! j) = Str []"
        by (simp add: nth_row_entries coerce_empty)
    qed
  qed
  then show ?thesis
    by (simp add: obj_get_def parse_line_def map_of_fromEntries)
qed

theorem parseCSV_missing_field_witness:
  "(1::nat) < length [str ''Country'', str ''Gold'']
   \<and> length (split_on 44 (str ''Norway'')) \<le> 1
   \<and> obj_get (parse_line Number_decimal [str ''Country'', str ''Gold''] (str ''Norway''))
        (str ''Gold'') = Str []"
proof -
  let ?hs = "[str ''Country'', str ''Gold'']"
  have h1: "(1::nat) < length ?hs" by simp
  have h2: "length (split_on 44 (str ''Norway'')) \<le> 1" by (simp add: str_def Let_def)
  show ?thesis
    using h1 h2 parseCSV_missing_field [OF h1 h2, of Number_decimal] by simp
qed

section \<open>Evaluating the samples\<close>

lemmas parse_eval = parseCSV_def parse_line_def row_entries_def fromEntries_def value_at_def
  coerce_def Number_decimal_def digits_value_def trim_def is_ws_def str_def replace_cr_def
  Let_def upt_rec

lemma parse_latest_sample: "parseCSV Number_decimal latest_text_sample = Inr latest_rows_sample"
  by (simp add: latest_text_sample_def latest_rows_sample_def parse_eval)

lemma parse_history_sample:
  "parseCSV Number_decimal history_text_sample = Inr history_rows_sample"
  by (simp add: history_text_sample_def history_rows_sample_def parse_eval)

lemmas pivot_eval = buildHistoryChartData_def byDate_of_def pivot_step_def format_label_def
  date_sample_def two_digit_def to_key_def obj_assign_def obj_get_def Object_values_def
  is_array_index_def digits_value_def str_def Let_def

lemma pivot_sample:
  "buildHistoryChartData date_sample num_to_string_sample history_rows_sample
   = [[(str ''date'', Str (str ''Feb 06'')), (str ''Norway'', Num (Fin 3)),
       (str ''Italy'', Num (Fin 2))],
      [(str ''date'', Str (str ''Feb 07'')), (str ''Norway'', Num (Fin 5))]]"
  by (simp add: history_rows_sample_def pivot_eval)

lemma top5_sample:
  "top5_of Number_decimal latest_rows_sample
   = [Str (str ''Norway''), Str (str ''China''), Str (str ''Italy''), Str (str ''Japan'')]"
  by (simp add: top5_of_def js_sort_def latest_rows_sample_def gold_cmp_def js_sub_def
      to_number_def obj_get_def str_def)

section \<open>The parser: blank lines\<close>

lemma dropWhile_keeps: "x \<in> set xs \<Longrightarrow> \<not> P x \<Longrightarrow> x \<in> set (dropWhile P xs)"
  by (induction xs) auto

lemma trim_empty_iff: "trim s = [] \<longleftrightarrow> (\<forall>c \<in> set s. is_ws c)"
proof
  assume "trim s = []"
  then have "\<forall>c \<in> set (dropWhile is_ws s). is_ws c"
    by (simp add: trim_def dropWhile_eq_Nil_conv)
  then show "\<forall>c \<in> set s. is_ws c" using dropWhile_keeps by metis
next
  assume "\<forall>c \<in> set s. is_ws c"
  then have e: "dropWhile is_ws s = []" by (induction s) auto
  show "trim s = []" unfolding trim_def e by simp
qed

lemma trim_append_blank:
  assumes "\<forall>c \<in> set b. is_ws c"
  shows "trim (a @ b) = trim a"
proof (cases "\<forall>c \<in> set a. is_ws c")
  case True
  then have "trim a = []" by (simp add: trim_empty_iff)
  moreover have "trim (a @ b) = []" using True assms by (auto simp: trim_empty_iff)
  ultimately show ?thesis by simp
next
  case False
  then obtain x where x: "x \<in> set a" "\<not> is_ws x" by blast
  then have "dropWhile is_ws (a @ b) = dropWhile is_ws a @ b"
    by simp
  moreover have "dropWhile is_ws (rev b @ ys) = dropWhile is_ws ys" for ys
    by (rule dropWhile_append2) (simp add: assms)
  ultimately show ?thesis by (simp add: trim_def)
qed

lemma trim_append_nonblank:
  assumes "x \<in> set a" "\<not> is_ws x" "y \<in> set b" "\<not> is_ws y"
  shows "trim (a @ b) = dropWhile is_ws a @ rev (dropWhile is_ws (rev b))"
proof -
  have "dropWhile is_ws (a @ b) = dropWhile is_ws a @ b"
    using assms(1,2) by simp
  moreover have "dropWhile is_ws (rev b @ ys) = dropWhile is_ws (rev b) @ ys" for ys
    using assms(3,4) by simp
  ultimately show ?thesis by (simp add: trim_def)
qed

lemma replace_crlf_id: "13 \<notin> set s \<Longrightarrow> replace_crlf s = s"
  by (induction s rule: replace_crlf.induct) auto

lemma replace_cr_id: "13 \<notin> set s \<Longrightarrow> replace_cr s = s"
  unfolding replace_cr_def by (induction s) auto

lemma split_on_single: "sep \<notin> set a \<Longrightarrow> split_on sep a = [a]"
  by (induction a) (auto simp: Let_def)

lemma split_on_append: "sep \<notin> set a \<Longrightarrow> split_on sep (a @ sep # b) = a # split_on sep b"
  by (induction a) (auto simp: Let_def)

lemma is_ws_10: "is_ws 10"
  by (simp add: is_ws_def)

text \<open>
  A header line, a data line and a line of whitespace only, the blank line last or in the
  middle: the one record is the record of the data line.
\<close>

lemma parseCSV_header_data_blank:
  assumes "trim h \<noteq> []" and "trim d \<noteq> []" and "trim w = []"
    and "\<forall>c \<in> set (h @ d @ w). c \<noteq> 10 \<and> c \<noteq> 13"
  shows "parseCSV Number (h @ [10] @ d @ [10] @ w)
           = Inr [parse_line Number (map trim (split_on 44 (dropWhile is_ws h)))
                    (rev (dropWhile is_ws (rev d)))]
         \<and> parseCSV Number (h @ [10] @ w @ [10] @ d)
           = Inr [parse_line Number (map trim (split_on 44 (dropWhile is_ws h)))
                    (rev (dropWhile is_ws (rev d)))]"
proof -
  let ?h = "dropWhile is_ws h" and ?d = "rev (dropWhile is_ws (rev d))"
  obtain x where x: "x \<in> set h" "\<not> is_ws x" using assms(1) trim_empty_iff by blast
  obtain y where y: "y \<in> set d" "\<not> is_ws y" using assms(2) trim_empty_iff by blast
  have w: "\<forall>c \<in> set w. is_ws c" using assms(3) by (simp add: trim_empty_iff)
  have yd: "y \<in> set ?d" using y by (simp add: dropWhile_keeps)
  then have nb: "trim ?d \<noteq> []" using y(2) trim_empty_iff by blast
  have subh: "set ?h \<subseteq> set h" and subd: "set ?d \<subseteq> set d"
    by (auto dest: set_dropWhileD)
  have nl: "10 \<notin> set ?h" "10 \<notin> set ?d" "10 \<notin> set w" "13 \<notin> set ?h" "13 \<notin> set ?d" "13 \<notin> set w"
    using assms(4) subh subd by auto
  have t1: "trim (h @ 10 # d @ 10 # w) = ?h @ 10 # ?d"
  proof -
    have "trim ((h @ [10] @ d) @ ([10] @ w)) = trim (h @ [10] @ d)"
      by (rule trim_append_blank) (use w is_ws_10 in auto)
    also have "\<dots> = trim (h @ (10 # d))" by simp
    also have "\<dots> = ?h @ rev (dropWhile is_ws (rev (10 # d)))"
      by (rule trim_append_nonblank [OF x, of y]) (use y in auto)
    also have "rev (dropWhile is_ws (rev (10 # d))) = 10 # ?d"
      using y by simp
    finally show ?thesis by simp
  qed
  have t2: "trim (h @ 10 # w @ 10 # d) = ?h @ 10 # w @ 10 # ?d"
  proof -
    have "trim (h @ (10 # w @ 10 # d)) = ?h @ rev (dropWhile is_ws (rev (10 # w @ 10 # d)))"
      by (rule trim_append_nonblank [OF x, of y]) (use y in auto)
    also have "rev (dropWhile is_ws (rev (10 # w @ 10 # d))) = 10 # w @ 10 # ?d"
      using y by simp
    finally show ?thesis by simp
  qed
  have n1: "replace_cr (replace_crlf (?h @ 10 # ?d)) = ?h @ 10 # ?d"
    using nl by (simp add: replace_crlf_id replace_cr_id)
  have n2: "replace_cr (replace_crlf (?h @ 10 # w @ 10 # ?d)) = ?h @ 10 # w @ 10 # ?d"
    using nl by (simp add: replace_crlf_id replace_cr_id)
  have s1: "split_on 10 (?h @ 10 # ?d) = [?h, ?d]"
    using nl by (simp add: split_on_append split_on_single)
  have s2: "split_on 10 (?h @ 10 # w @ 10 # ?d) = [?h, w, ?d]"
    using nl by (simp add: split_on_append split_on_single)
  show ?thesis
    using nb assms(3) by (simp add: parseCSV_def t1 t2 n1 n2 s1 s2)
qed


lemma join_lines_Cons: "join_lines (l # ls) = l @ concat (map (\<lambda>m. 10 # m) ls)"
  by (induction ls arbitrary: l) simp_all

lemma split_on_concat:
  assumes "\<forall>l \<in> set (l0 # ls). 10 \<notin> set l"
  shows "split_on 10 (l0 @ concat (map (\<lambda>m. 10 # m) ls)) = l0 # ls"
  using assms
proof (induction ls arbitrary: l0)
  case Nil
  then show ?case by (simp add: split_on_single)
next
  case (Cons m ls)
  then show ?case by (simp add: split_on_append)
qed

lemma blank_suffix_split:
  "\<exists>A B. ls = A @ B \<and> (\<forall>b \<in> set B. trim b = []) \<and> (A = [] \<or> trim (last A) \<noteq> [])"
proof (induction ls rule: rev_induct)
  case Nil
  then show ?case by simp
next
  case (snoc l ls)
  show ?case
  proof (cases "trim l = []")
    case True
    from snoc obtain A B where "ls = A @ B" "\<forall>b \<in> set B. trim b = []"
      "A = [] \<or> trim (last A) \<noteq> []" by blast
    then have "ls @ [l] = A @ (B @ [l])" "\<forall>b \<in> set (B @ [l]). trim b = []"
      using True by auto
    then show ?thesis using \<open>A = [] \<or> trim (last A) \<noteq> []\<close> by blast
  next
    case False
    then have "ls @ [l] = (ls @ [l]) @ []" "\<forall>b \<in> set ([]::jsstring list). trim b = []"
      "trim (last (ls @ [l])) \<noteq> []" by auto
    then show ?thesis by blast
  qed
qed

lemma set_rstrip: "set (rev (dropWhile is_ws (rev s))) \<subseteq> set s"
proof
  fix c assume "c \<in> set (rev (dropWhile is_ws (rev s)))"
  then have "c \<in> set (dropWhile is_ws (rev s))" by simp
  then have "c \<in> set (rev s)" by (rule set_dropWhileD)
  then show "c \<in> set s" by simp
qed

lemma set_trim: "set (trim s) \<subseteq> set s"
proof
  fix c assume "c \<in> set (trim s)"
  then have "c \<in> set (rev (dropWhile is_ws (rev (dropWhile is_ws s))))" by (simp add: trim_def)
  then have "c \<in> set (dropWhile is_ws s)" using set_rstrip by blast
  then show "c \<in> set s" by (rule set_dropWhileD)
qed

lemma rstrip_nonblank:
  "trim (rev (dropWhile is_ws (rev s))) = [] \<longleftrightarrow> trim s = []"
proof -
  have "(\<forall>c \<in> set (rev (dropWhile is_ws (rev s))). is_ws c) \<longleftrightarrow> (\<forall>c \<in> set s. is_ws c)"
  proof
    assume a: "\<forall>c \<in> set (rev (dropWhile is_ws (rev s))). is_ws c"
    show "\<forall>c \<in> set s. is_ws c"
    proof
      fix c assume c: "c \<in> set s"
      show "is_ws c"
      proof (rule ccontr)
        assume n: "\<not> is_ws c"
        from c have "c \<in> set (rev s)" by simp
        then have "c \<in> set (dropWhile is_ws (rev s))" using n by (rule dropWhile_keeps)
        with a n show False by simp
      qed
    qed
  next
    assume a: "\<forall>c \<in> set s. is_ws c"
    with set_rstrip [of s] show "\<forall>c \<in> set (rev (dropWhile is_ws (rev s))). is_ws c" by blast
  qed
  then show ?thesis by (simp add: trim_empty_iff)
qed

text \<open>
  C7. For a text made of a header line that is not blank and any data lines (lines hold no
  line break), the parser returns as many records as there are data lines that are not
  empty or whitespace-only after trimming: no record stands for a blank line. A header,
  one data line and one whitespace-only line give exactly one record.
\<close>

theorem parseCSV_blank_lines:
  assumes hb: "trim h \<noteq> []"
    and nl: "\<forall>l \<in> set (h # ls). 10 \<notin> set l \<and> 13 \<notin> set l"
  shows "\<exists>records. parseCSV Number (join_lines (h # ls)) = Inr records
           \<and> length records = length (filter (\<lambda>l. trim l \<noteq> []) ls)"
proof -
  let ?h = "dropWhile is_ws h"
  obtain x where x: "x \<in> set h" "\<not> is_ws x" using hb trim_empty_iff by blast
  obtain A B where AB: "ls = A @ B" "\<forall>b \<in> set B. trim b = []"
    "A = [] \<or> trim (last A) \<noteq> []" using blank_suffix_split by blast
  let ?Y = "concat (map (\<lambda>m. 10 # m) B)"
  have Y: "\<forall>c \<in> set ?Y. is_ws c"
    using AB(2) by (auto simp: trim_empty_iff is_ws_10)
  have jl: "join_lines (h # ls) = (h @ concat (map (\<lambda>m. 10 # m) A)) @ ?Y"
    by (simp add: join_lines_Cons AB(1))
  have t0: "trim (join_lines (h # ls)) = trim (h @ concat (map (\<lambda>m. 10 # m) A))"
    unfolding jl by (rule trim_append_blank [OF Y])
  have fB: "filter (\<lambda>l. trim l \<noteq> []) B = []"
    using AB(2) by (auto simp: filter_empty_conv)
  show ?thesis
  proof (cases "A = []")
    case True
    have "10 \<notin> set (trim h)" "13 \<notin> set (trim h)" using nl set_trim [of h] by auto
    then have "split_on 10 (replace_cr (replace_crlf (trim h))) = [trim h]"
      by (simp add: replace_crlf_id replace_cr_id split_on_single)
    then show ?thesis using True t0 fB AB(1) by (simp add: parseCSV_def)
  next
    case False
    then obtain A' a where A: "A = A' @ [a]" by (metis rev_exhaust)
    with AB(3) have ab: "trim a \<noteq> []" by simp
    then obtain y where y: "y \<in> set a" "\<not> is_ws y" using trim_empty_iff by blast
    let ?a = "rev (dropWhile is_ws (rev a))"
    let ?M = "concat (map (\<lambda>m. 10 # m) A')"
    have "trim (h @ (?M @ 10 # a)) = ?h @ rev (dropWhile is_ws (rev (?M @ 10 # a)))"
      by (rule trim_append_nonblank [OF x, of y]) (use y in auto)
    also have "rev (dropWhile is_ws (rev (?M @ 10 # a))) = ?M @ 10 # ?a"
      using y by simp
    finally have t1: "trim (join_lines (h # ls)) = ?h @ concat (map (\<lambda>m. 10 # m) (A' @ [?a]))"
      using t0 A by simp
    have subh: "set ?h \<subseteq> set h" by (auto dest: set_dropWhileD)
    have suba: "set ?a \<subseteq> set a" by (rule set_rstrip)
    have lines: "\<forall>l \<in> set (?h # A' @ [?a]). 10 \<notin> set l \<and> 13 \<notin> set l"
      using nl subh suba AB(1) A by auto
    then have no13: "13 \<notin> set (?h @ concat (map (\<lambda>m. 10 # m) (A' @ [?a])))"
      by auto
    have sp: "split_on 10 (?h @ concat (map (\<lambda>m. 10 # m) (A' @ [?a]))) = ?h # A' @ [?a]"
      by (rule split_on_concat) (use lines in auto)
    have "length (filter (\<lambda>l. trim l \<noteq> []) (A' @ [?a]))
          = length (filter (\<lambda>l. trim l \<noteq> []) ls)"
      using ab fB by (simp add: AB(1) A rstrip_nonblank)
    then show ?thesis
      using no13 by (simp add: parseCSV_def t1 replace_crlf_id replace_cr_id sp del: concat_append map_append)
  qed
qed

theorem parseCSV_blank_lines_witness:
  "trim (str ''Country,Gold'') \<noteq> []
   \<and> (\<exists>records. parseCSV Number_decimal
          (join_lines [str ''Country,Gold'', str ''Norway,5'', [32, 9, 32]]) = Inr records
        \<and> length records = 1)"
proof -
  have h1: "trim (str ''Country,Gold'') \<noteq> []"
    by (simp add: trim_def is_ws_def str_def)
  have h2: "\<forall>l \<in> set [str ''Country,Gold'', str ''Norway,5'', [32, 9, 32]].
              10 \<notin> set l \<and> 13 \<notin> set l"
    by (simp add: str_def)
  have n: "length (filter (\<lambda>l. trim l \<noteq> []) [str ''Norway,5'', [32, 9, 32]]) = 1"
    by (simp add: trim_def is_ws_def str_def)
  show ?thesis
    using h1 parseCSV_blank_lines [OF h1 h2, of Number_decimal] n by simp
qed

section \<open>The history pivot: points and their fields\<close>

lemma map_of_None_iff: "map_of al k = None \<longleftrightarrow> k \<notin> set (map fst al)"
  by (simp add: map_of_eq_None_iff)

lemma keys_pivot_step:
  "map fst (pivot_step date_of num_to_string byDate row)
   = (if label_of date_of row \<in> set (map fst byDate) then map fst byDate
      else map fst byDate @ [label_of date_of row])"
proof (cases "map_of byDate (label_of date_of row)")
  case None
  then have "label_of date_of row \<notin> set (map fst byDate)" by (simp add: map_of_None_iff)
  then show ?thesis
    using None
    by (simp add: pivot_step_def label_of_def [symmetric] Let_def update_keys map_add_def)
next
  case (Some p)
  then have "label_of date_of row \<in> set (map fst byDate)"
    by (metis map_of_None_iff option.distinct(1))
  then show ?thesis
    using Some by (simp add: pivot_step_def label_of_def [symmetric] Let_def update_keys)
qed

lemma keys_pivot_fold:
  "map fst (foldl (pivot_step date_of num_to_string) acc rows)
   = map fst acc @ filter (\<lambda>l. l \<notin> set (map fst acc)) (first_seen (map (label_of date_of) rows))"
proof (induction rows arbitrary: acc)
  case Nil
  show ?case by simp
next
  case (Cons r rows)
  show ?case
  proof (cases "label_of date_of r \<in> set (map fst acc)")
    case True
    then have "filter (\<lambda>l. l \<noteq> label_of date_of r \<and> l \<notin> set (map fst acc)) xs
               = filter (\<lambda>l. l \<notin> set (map fst acc)) xs" for xs
      by (intro filter_cong) auto
    then show ?thesis using True by (simp add: Cons.IH keys_pivot_step)
  next
    case False
    have "filter (\<lambda>l. l \<noteq> label_of date_of r \<and> l \<notin> set (map fst acc)) xs
          = filter (\<lambda>l. l \<notin> set (map fst acc) \<and> l \<noteq> label_of date_of r) xs" for xs
      by (intro filter_cong) auto
    then show ?thesis using False by (simp add: Cons.IH keys_pivot_step)
  qed
qed

lemma keys_byDate_of:
  "map fst (byDate_of date_of num_to_string rows) = first_seen (map (label_of date_of) rows)"
  by (simp add: byDate_of_def keys_pivot_fold)

lemma set_first_seen: "set (first_seen xs) = set xs"
  by (induction xs) auto

lemma distinct_first_seen: "distinct (first_seen xs)"
  by (induction xs) (auto simp: set_first_seen)

lemma label_not_index: "\<not> is_array_index (format_label date_of v)"
proof (cases "date_of v")
  case None
  then show ?thesis by (simp add: format_label_def is_array_index_def str_def)
next
  case (Some md)
  obtain m d where "md = (m, d)" by (cases md)
  with Some show ?thesis
    by (cases m) (simp_all add: format_label_def is_array_index_def str_def)
qed

lemma Object_values_plain:
  "\<forall>k \<in> set (map fst ob). \<not> is_array_index k \<Longrightarrow> Object_values ob = map snd ob"
proof -
  assume a: "\<forall>k \<in> set (map fst ob). \<not> is_array_index k"
  then have "filter (\<lambda>p. is_array_index (fst p)) ob = []"
    by (auto simp: filter_empty_conv)
  moreover have "filter (\<lambda>p. \<not> is_array_index (fst p)) ob = ob"
    using a by (auto simp: filter_id_conv)
  ultimately show ?thesis by (simp add: Object_values_def)
qed

lemma buildHistoryChartData_points:
  "buildHistoryChartData date_of num_to_string rows
   = map snd (byDate_of date_of num_to_string rows)"
proof -
  have "set (map fst (byDate_of date_of num_to_string rows)) = label_of date_of ` set rows"
    by (simp add: keys_byDate_of set_first_seen)
  then have "\<forall>k \<in> set (map fst (byDate_of date_of num_to_string rows)). \<not> is_array_index k"
    by (auto simp: label_of_def label_not_index)
  then show ?thesis by (simp add: buildHistoryChartData_def Object_values_plain)
qed

lemma length_buildHistoryChartData:
  "length (buildHistoryChartData date_of num_to_string rows)
   = card (label_of date_of ` set rows)"
proof -
  have "length (buildHistoryChartData date_of num_to_string rows)
        = length (first_seen (map (label_of date_of) rows))"
    by (metis buildHistoryChartData_points keys_byDate_of length_map)
  also have "\<dots> = card (set (first_seen (map (label_of date_of) rows)))"
    by (simp add: distinct_card distinct_first_seen)
  finally show ?thesis by (simp add: set_first_seen)
qed

lemma map_of_pivot_step:
  "map_of (pivot_step date_of num_to_string byDate row)
   = (map_of byDate)(label_of date_of row \<mapsto>
        assign_row num_to_string row
          (case map_of byDate (label_of date_of row) of
             None \<Rightarrow> [(str ''date'', Str (label_of date_of row))]
           | Some p \<Rightarrow> p))"
  by (cases "map_of byDate (label_of date_of row)")
     (auto simp: pivot_step_def label_of_def [symmetric] country_key_def [symmetric]
        assign_row_def [symmetric] Let_def update_conv' map_add_def fun_eq_iff
        split: option.splits)

lemma map_of_pivot_fold:
  "map_of (foldl (pivot_step date_of num_to_string) acc rows) l
   = (let rs = filter (\<lambda>r. label_of date_of r = l) rows
      in case map_of acc l of
           Some p \<Rightarrow> Some (foldl (\<lambda>p r. assign_row num_to_string r p) p rs)
         | None \<Rightarrow>
             if rs = [] then None
             else Some (foldl (\<lambda>p r. assign_row num_to_string r p) [(str ''date'', Str l)] rs))"
proof (induction rows arbitrary: acc)
  case Nil
  show ?case by (simp split: option.splits)
next
  case (Cons r rows)
  show ?case
    by (simp add: Cons.IH map_of_pivot_step Let_def split: option.splits)
qed

lemma obj_get_obj_assign:
  "obj_get (obj_assign k' v p) k
   = (if k' = k \<and> k \<noteq> str ''__proto__'' then v else obj_get p k)"
  by (simp add: obj_assign_def obj_get_def update_conv')

lemma obj_get_assign_row:
  "k \<noteq> str ''__proto__'' \<Longrightarrow>
   obj_get (assign_row num_to_string r p) k
   = (if country_key num_to_string r = k then obj_get r (str ''Gold'') else obj_get p k)"
  by (simp add: assign_row_def obj_get_obj_assign)

lemma keys_assign_row:
  "map_of p (str ''__proto__'') = None \<Longrightarrow>
   map_of (assign_row num_to_string r p) (str ''__proto__'') = None"
  by (simp add: assign_row_def obj_assign_def update_conv')

lemma obj_get_assign_fold:
  assumes "k \<noteq> str ''__proto__''"
  shows "obj_get (foldl (\<lambda>p r. assign_row num_to_string r p) p rs) k
         = (if filter (\<lambda>r. country_key num_to_string r = k) rs = [] then obj_get p k
            else obj_get (last (filter (\<lambda>r. country_key num_to_string r = k) rs))
                   (str ''Gold''))"
proof (induction rs rule: rev_induct)
  case Nil
  show ?case by simp
next
  case (snoc r rs)
  show ?case
    using assms
    by (simp add: snoc.IH obj_get_assign_row)
qed

lemma keys_assign_fold:
  "map_of p (str ''__proto__'') = None \<Longrightarrow>
   map_of (foldl (\<lambda>p r. assign_row num_to_string r p) p rs) (str ''__proto__'') = None"
proof (induction rs arbitrary: p)
  case Nil
  then show ?case by simp
next
  case (Cons r rs)
  from Cons.IH [OF keys_assign_row [OF Cons.prems]] show ?case by simp
qed

text \<open>The field of a point for a country key other than \<open>__proto__\<close>.\<close>

lemma pivot_point_field:
  assumes "(l, point) \<in> set (byDate_of date_of num_to_string rows)"
    and "k \<noteq> str ''__proto__''"
    and "filter (\<lambda>r. label_of date_of r = l \<and> country_key num_to_string r = k) rows \<noteq> []"
  shows "obj_get point k
         = obj_get (last (filter (\<lambda>r. label_of date_of r = l \<and> country_key num_to_string r = k)
                            rows)) (str ''Gold'')"
proof -
  have d: "distinct (map fst (byDate_of date_of num_to_string rows))"
    by (simp add: keys_byDate_of distinct_first_seen)
  with assms(1) have "map_of (byDate_of date_of num_to_string rows) l = Some point" by simp
  then obtain p0 where
    "point = foldl (\<lambda>p r. assign_row num_to_string r p) p0
               (filter (\<lambda>r. label_of date_of r = l) rows)"
    by (auto simp: byDate_of_def map_of_pivot_fold Let_def split: if_splits)
  then show ?thesis using assms(2,3) by (simp add: obj_get_assign_fold conj_commute)
qed

text \<open>No point ever has an own property \<open>__proto__\<close>.\<close>

lemma pivot_point_no_proto:
  assumes "(l, point) \<in> set (byDate_of date_of num_to_string rows)"
  shows "map_of point (str ''__proto__'') = None"
proof -
  have d: "distinct (map fst (byDate_of date_of num_to_string rows))"
    by (simp add: keys_byDate_of distinct_first_seen)
  with assms(1) have "map_of (byDate_of date_of num_to_string rows) l = Some point" by simp
  then have "point = foldl (\<lambda>p r. assign_row num_to_string r p) [(str ''date'', Str l)]
               (filter (\<lambda>r. label_of date_of r = l) rows)"
    by (auto simp: byDate_of_def map_of_pivot_fold Let_def split: if_splits)
  moreover have "map_of [(str ''date'', Str l)] (str ''__proto__'') = None"
    by (simp add: str_def)
  ultimately show ?thesis using keys_assign_fold by metis
qed

text \<open>
  C2. The pivot gives one point per distinct label, in the order of first occurrence
  (\<open>keys_byDate_of\<close>, \<open>buildHistoryChartData_points\<close>), and a point's field for a
  country key is the Gold of the last record with that label and key
  (\<open>pivot_point_field\<close>), except for the key \<open>__proto__\<close>: a record whose country is
  \<open>__proto__\<close> leaves no field in its point. Here the resource has one such record
  with Gold 3, and the point holds its date only.
\<close>

theorem buildHistoryChartData_proto_country:
  "parseCSV Number_decimal history_text_proto = Inr history_rows_proto
   \<and> buildHistoryChartData date_sample num_to_string_sample history_rows_proto
       = [[(str ''date'', Str (str ''Feb 06''))]]"
  by (simp add: history_text_proto_def history_rows_proto_def parse_eval pivot_eval)


section \<open>Sorting by gold: permutation, order, stability\<close>

lemma positive_num_sub: "positive (num_sub b a) \<longleftrightarrow> num_less a b"
  by (cases a; cases b) simp_all

lemma num_less_irrefl: "\<not> num_less a a"
  by (cases a) simp_all

lemma num_less_asym: "num_less a b \<Longrightarrow> \<not> num_less b a"
  by (cases a; cases b) simp_all

lemma num_not_less_trans: "\<not> num_less a b \<Longrightarrow> \<not> num_less b c \<Longrightarrow> \<not> num_less a c"
  by (cases a; cases b; cases c) simp_all

lemma mset_insert_cmp: "mset (insert_cmp cmp x ys) = add_mset x (mset ys)"
  by (induction ys) simp_all

lemma mset_js_sort: "mset (js_sort cmp xs) = mset xs"
  by (induction xs) (simp_all add: js_sort_def mset_insert_cmp)

lemma set_js_sort: "set (js_sort cmp xs) = set xs"
  by (metis mset_js_sort set_mset_mset)

lemma set_insert_cmp: "set (insert_cmp cmp x ys) = insert x (set ys)"
  by (metis mset_insert_cmp set_mset_mset set_mset_add_mset_insert)

lemma sorted_insert_cmp:
  assumes "by_key_desc cmp g (insert x (set ys))"
    and "sorted_wrt (\<lambda>a b. \<not> num_less (g a) (g b)) ys"
  shows "sorted_wrt (\<lambda>a b. \<not> num_less (g a) (g b)) (insert_cmp cmp x ys)"
  using assms
proof (induction ys)
  case Nil
  then show ?case by simp
next
  case (Cons y ys)
  have key: "positive (cmp x y) \<longleftrightarrow> num_less (g x) (g y)"
    using Cons.prems(1) by (simp add: by_key_desc_def)
  show ?case
  proof (cases "positive (cmp x y)")
    case True
    have sub: "by_key_desc cmp g (insert x (set ys))"
      using Cons.prems(1) by (simp add: by_key_desc_def)
    have "sorted_wrt (\<lambda>a b. \<not> num_less (g a) (g b)) (insert_cmp cmp x ys)"
      using Cons.IH [OF sub] Cons.prems(2) by simp
    moreover have "\<forall>z \<in> set (insert_cmp cmp x ys). \<not> num_less (g y) (g z)"
      using Cons.prems(2) True key by (auto simp: set_insert_cmp dest: num_less_asym)
    ultimately show ?thesis using True by simp
  next
    case False
    then have xy: "\<not> num_less (g x) (g y)" using key by simp
    have "\<forall>z \<in> set ys. \<not> num_less (g x) (g z)"
    proof
      fix z assume "z \<in> set ys"
      then have "\<not> num_less (g y) (g z)" using Cons.prems(2) by simp
      with xy show "\<not> num_less (g x) (g z)" by (rule num_not_less_trans)
    qed
    with xy show ?thesis using False Cons.prems(2) by simp
  qed
qed

lemma by_key_desc_mono: "by_key_desc cmp g A \<Longrightarrow> B \<subseteq> A \<Longrightarrow> by_key_desc cmp g B"
  by (auto simp: by_key_desc_def)

lemma sorted_js_sort:
  "by_key_desc cmp g (set xs) \<Longrightarrow> sorted_wrt (\<lambda>a b. \<not> num_less (g a) (g b)) (js_sort cmp xs)"
proof (induction xs)
  case Nil
  then show ?case by (simp add: js_sort_def)
next
  case (Cons x xs)
  have s: "sorted_wrt (\<lambda>a b. \<not> num_less (g a) (g b)) (js_sort cmp xs)"
    using Cons by (auto intro: by_key_desc_mono)
  have "by_key_desc cmp g (insert x (set (js_sort cmp xs)))"
    using Cons.prems by (simp add: set_js_sort)
  from sorted_insert_cmp [OF this s] show ?case by (simp add: js_sort_def)
qed

lemma filter_insert_cmp:
  assumes "by_key_desc cmp g (insert x (set ys))"
  shows "filter (\<lambda>r. g r = v) (insert_cmp cmp x ys)
         = (if g x = v then x # filter (\<lambda>r. g r = v) ys else filter (\<lambda>r. g r = v) ys)"
  using assms
proof (induction ys)
  case Nil
  then show ?case by simp
next
  case (Cons y ys)
  have key: "positive (cmp x y) \<longleftrightarrow> num_less (g x) (g y)"
    using Cons.prems(1) by (simp add: by_key_desc_def)
  have sub: "by_key_desc cmp g (insert x (set ys))"
    using Cons.prems(1) by (simp add: by_key_desc_def)
  show ?case
  proof (cases "positive (cmp x y)")
    case True
    then have "g x \<noteq> g y" using key num_less_irrefl by metis
    then show ?thesis using True Cons.IH [OF sub] by auto
  next
    case False
    then show ?thesis by simp
  qed
qed

lemma filter_js_sort:
  "by_key_desc cmp g (set xs) \<Longrightarrow>
   filter (\<lambda>r. g r = v) (js_sort cmp xs) = filter (\<lambda>r. g r = v) xs"
proof (induction xs)
  case Nil
  then show ?case by (simp add: js_sort_def)
next
  case (Cons x xs)
  have ih: "filter (\<lambda>r. g r = v) (js_sort cmp xs) = filter (\<lambda>r. g r = v) xs"
    using Cons by (auto intro: by_key_desc_mono)
  have "by_key_desc cmp g (insert x (set (js_sort cmp xs)))"
    using Cons.prems by (simp add: set_js_sort)
  from filter_insert_cmp [OF this, of v] ih show ?case by (simp add: js_sort_def)
qed

section \<open>The load\<close>

lemma load_try_success:
  assumes "latest_fetch net = Fulfilled lr" and "history_fetch net = Fulfilled hr"
    and "ok lr" and "ok hr"
    and "text_body lr = Fulfilled lt" and "text_body hr = Fulfilled ht"
    and "parseCSV Number lt = Inr latest" and "parseCSV Number ht = Inr history"
  shows "load_try Number date_of num_to_string net st
         = Inr (st\<lparr>latestData := latest,
                   historyData := buildHistoryChartData date_of num_to_string history,
                   countries := top5_of Number latest,
                   selectedCountries := take 3 (top5_of Number latest),
                   lastUpdated := first_scrape_date latest\<rparr>)"
  using assms by (simp add: load_try_def Let_def)

lemma gold_cmp_by_key:
  assumes "\<forall>r \<in> set rows. \<exists>n. obj_get r (str ''Gold'') = Num n"
  shows "by_key_desc (gold_cmp Number)
           (\<lambda>r. case obj_get r (str ''Gold'') of Num n \<Rightarrow> n | _ \<Rightarrow> Fin 0) (set rows)"
  unfolding by_key_desc_def
proof (intro ballI)
  fix x y assume "x \<in> set rows" "y \<in> set rows"
  with assms obtain a b where "obj_get x (str ''Gold'') = Num a" "obj_get y (str ''Gold'') = Num b"
    by blast
  then show "positive (gold_cmp Number x y)
      \<longleftrightarrow> num_less (case obj_get x (str ''Gold'') of Num n \<Rightarrow> n | _ \<Rightarrow> Fin 0)
            (case obj_get y (str ''Gold'') of Num n \<Rightarrow> n | _ \<Rightarrow> Fin 0)"
    by (simp add: gold_cmp_def js_sub_def to_number_def positive_num_sub)
qed

lemma js_sort_gold:
  assumes num: "\<forall>r \<in> set rows. \<exists>n. obj_get r (str ''Gold'') = Num n"
  shows "sorted_wrt (\<lambda>a b. gold_ge (obj_get a (str ''Gold'')) (obj_get b (str ''Gold'')))
           (js_sort (gold_cmp Number) rows)"
    and "filter (\<lambda>r. obj_get r (str ''Gold'') = v) (js_sort (gold_cmp Number) rows)
         = filter (\<lambda>r. obj_get r (str ''Gold'') = v) rows"
proof -
  let ?g = "\<lambda>r. case obj_get r (str ''Gold'') of Num n \<Rightarrow> n | _ \<Rightarrow> Fin 0"
  let ?s = "js_sort (gold_cmp Number) rows"
  have key: "by_key_desc (gold_cmp Number) ?g (set rows)" by (rule gold_cmp_by_key [OF num])
  have num': "\<forall>r \<in> set ?s. \<exists>n. obj_get r (str ''Gold'') = Num n"
    using num by (simp add: set_js_sort)
  have "sorted_wrt (\<lambda>a b. \<not> num_less (?g a) (?g b)) ?s" by (rule sorted_js_sort [OF key])
  then show "sorted_wrt (\<lambda>a b. gold_ge (obj_get a (str ''Gold'')) (obj_get b (str ''Gold''))) ?s"
  proof (rule sorted_wrt_mono_rel [rotated])
    fix a b assume "a \<in> set ?s" "b \<in> set ?s" "\<not> num_less (?g a) (?g b)"
    moreover from this num' obtain x y where
      "obj_get a (str ''Gold'') = Num x" "obj_get b (str ''Gold'') = Num y" by blast
    ultimately show "gold_ge (obj_get a (str ''Gold'')) (obj_get b (str ''Gold''))" by simp
  qed
  show "filter (\<lambda>r. obj_get r (str ''Gold'') = v) ?s = filter (\<lambda>r. obj_get r (str ''Gold'') = v) rows"
  proof (cases v)
    case (Num n)
    have "filter (\<lambda>r. obj_get r (str ''Gold'') = v) ?s = filter (\<lambda>r. ?g r = n) ?s"
      using num' Num by (intro filter_cong) auto
    also have "\<dots> = filter (\<lambda>r. ?g r = n) rows" by (rule filter_js_sort [OF key])
    also have "\<dots> = filter (\<lambda>r. obj_get r (str ''Gold'') = v) rows"
      using num Num by (intro filter_cong) auto
    finally show ?thesis .
  next
    case Undefined
    have "filter (\<lambda>r. obj_get r (str ''Gold'') = v) ?s = []"
      using num' Undefined by (auto simp: filter_empty_conv)
    moreover have "filter (\<lambda>r. obj_get r (str ''Gold'') = v) rows = []"
      using num Undefined by (auto simp: filter_empty_conv)
    ultimately show ?thesis by simp
  next
    case (Str s)
    have "filter (\<lambda>r. obj_get r (str ''Gold'') = v) ?s = []"
      using num' Str by (auto simp: filter_empty_conv)
    moreover have "filter (\<lambda>r. obj_get r (str ''Gold'') = v) rows = []"
      using num Str by (auto simp: filter_empty_conv)
    ultimately show ?thesis by simp
  qed
qed

text \<open>
  C3. After a successful load of latest records whose Gold values are numbers, the
  top-5 list is the country names of the first five records of a ranking of the latest
  records: the same records, with Gold descending, and records with equal Gold in their
  input order. The selected countries are the first three of the top-5 list.
\<close>

theorem loadData_top5:
  assumes "latest_fetch net = Fulfilled lr" and "history_fetch net = Fulfilled hr"
    and "ok lr" and "ok hr"
    and "text_body lr = Fulfilled lt" and "text_body hr = Fulfilled ht"
    and "parseCSV Number lt = Inr latest"
    and "\<forall>r \<in> set latest. \<exists>n. obj_get r (str ''Gold'') = Num n"
  shows "\<exists>ranked.
           mset ranked = mset latest
           \<and> sorted_wrt (\<lambda>a b. gold_ge (obj_get a (str ''Gold'')) (obj_get b (str ''Gold''))) ranked
           \<and> (\<forall>v. filter (\<lambda>r. obj_get r (str ''Gold'') = v) ranked
                  = filter (\<lambda>r. obj_get r (str ''Gold'') = v) latest)
           \<and> countries (loadData Number date_of num_to_string net st)
               = map (\<lambda>r. obj_get r (str ''Country'')) (take 5 ranked)
           \<and> selectedCountries (loadData Number date_of num_to_string net st)
               = take 3 (countries (loadData Number date_of num_to_string net st))"
proof -
  obtain history where h: "parseCSV Number ht = Inr history"
    using parseCSV_Inr by blast
  let ?ranked = "js_sort (gold_cmp Number) latest"
  have c: "countries (loadData Number date_of num_to_string net st)
           = map (\<lambda>r. obj_get r (str ''Country'')) (take 5 ?ranked)"
    and s: "selectedCountries (loadData Number date_of num_to_string net st)
           = take 3 (countries (loadData Number date_of num_to_string net st))"
    by (simp_all add: loadData_def load_try_success [OF assms(1-7) h] top5_of_def)
  have "mset ?ranked = mset latest" by (rule mset_js_sort)
  with js_sort_gold [OF assms(8)] c s show ?thesis by blast
qed

lemma net_sample_fetches:
  "latest_fetch net_sample = Fulfilled (response_ok latest_text_sample)"
  "history_fetch net_sample = Fulfilled (response_ok history_text_sample)"
  by (simp_all add: net_sample_def)

lemma response_ok_fields:
  "ok (response_ok body)" "text_body (response_ok body) = Fulfilled body"
  by (simp_all add: response_ok_def)

lemma loadData_sample:
  "loadData Number_decimal date_sample num_to_string_sample net_sample initial_state
   = initial_state\<lparr>latestData := latest_rows_sample,
       historyData := buildHistoryChartData date_sample num_to_string_sample history_rows_sample,
       countries := top5_of Number_decimal latest_rows_sample,
       selectedCountries := take 3 (top5_of Number_decimal latest_rows_sample),
       lastUpdated := first_scrape_date latest_rows_sample,
       loaded := True\<rparr>"
  by (simp add: loadData_def
      load_try_success [OF net_sample_fetches response_ok_fields(1) response_ok_fields(1)
        response_ok_fields(2) response_ok_fields(2) parse_latest_sample parse_history_sample])

theorem loadData_top5_witness:
  "parseCSV Number_decimal latest_text_sample = Inr latest_rows_sample
   \<and> (\<exists>ranked.
         mset ranked = mset latest_rows_sample
         \<and> sorted_wrt (\<lambda>a b. gold_ge (obj_get a (str ''Gold'')) (obj_get b (str ''Gold''))) ranked
         \<and> (\<forall>v. filter (\<lambda>r. obj_get r (str ''Gold'') = v) ranked
                = filter (\<lambda>r. obj_get r (str ''Gold'') = v) latest_rows_sample)
         \<and> countries (loadData Number_decimal date_sample num_to_string_sample net_sample
               initial_state)
             = map (\<lambda>r. obj_get r (str ''Country'')) (take 5 ranked)
         \<and> selectedCountries (loadData Number_decimal date_sample num_to_string_sample
               net_sample initial_state)
             = take 3 (countries (loadData Number_decimal date_sample num_to_string_sample
                 net_sample initial_state)))"
proof -
  have h8: "\<forall>r \<in> set latest_rows_sample. \<exists>n. obj_get r (str ''Gold'') = Num n"
    by (simp add: latest_rows_sample_def obj_get_def str_def)
  show ?thesis
    using loadData_top5 [OF net_sample_fetches response_ok_fields(1) response_ok_fields(1)
        response_ok_fields(2) response_ok_fields(2) parse_latest_sample h8]
      parse_latest_sample
    by simp
qed

text \<open>
  C5. When both fetches give a response and one of them is not ok, the load ends with an
  error whose message names the resource (the latest one when both failed) and the
  decimal status code of its response; and every load, failed or not, ends with
  \<open>loaded\<close> true.
\<close>

theorem loadData_http_error:
  assumes "latest_fetch net = Fulfilled lr" and "history_fetch net = Fulfilled hr"
    and "\<not> ok lr \<or> \<not> ok hr"
  shows "fetchError (loadData Number date_of num_to_string net st)
           = Some (Error (if \<not> ok lr then str ''latest CSV: '' @ decimal (status lr)
                          else str ''history CSV: '' @ decimal (status hr)))
         \<and> loaded (loadData Number date_of num_to_string net st)
         \<and> loaded (loadData Number date_of num_to_string net2 st2)"
proof -
  have l: "\<And>n s. loaded (loadData Number date_of num_to_string n s)"
    by (simp add: loadData_def split: sum.splits)
  have "load_try Number date_of num_to_string net st
        = Inl (Error (if \<not> ok lr then str ''latest CSV: '' @ decimal (status lr)
                          else str ''history CSV: '' @ decimal (status hr)))"
    using assms by (auto simp: load_try_def)
  then show ?thesis using l by (simp add: loadData_def)
qed

theorem loadData_http_error_witness:
  "fetchError (loadData Number_decimal date_sample num_to_string_sample net_history_404
      initial_state) = Some (Error (str ''history CSV: 404''))
   \<and> loaded (loadData Number_decimal date_sample num_to_string_sample net_history_404
      initial_state)"
proof -
  have h1: "latest_fetch net_history_404 = Fulfilled (response_ok latest_text_sample)"
    and h2: "history_fetch net_history_404 = Fulfilled response_404"
    by (simp_all add: net_history_404_def)
  have h3: "\<not> ok (response_ok latest_text_sample) \<or> \<not> ok response_404"
    by (simp add: response_404_def)
  have d: "decimal 404 = str ''404''" by (simp add: decimal.simps str_def)
  show ?thesis
    using loadData_http_error [OF h1 h2 h3, of Number_decimal date_sample
        num_to_string_sample initial_state net_history_404 initial_state] d
    by (simp add: response_ok_def response_404_def str_def)
qed

section \<open>Selecting countries\<close>

lemma toggle_distinct: "distinct prev \<Longrightarrow> distinct (toggle c prev)"
  by (simp add: toggle_def)

lemma toggle_length: "length prev \<le> 5 \<Longrightarrow> length (toggle c prev) \<le> 5"
proof -
  assume a: "length prev \<le> 5"
  have "length (filter (\<lambda>x. x \<noteq> c) prev) \<le> length prev" by (rule length_filter_le)
  with a have "length (filter (\<lambda>x. x \<noteq> c) prev) \<le> 5" by linarith
  with a show ?thesis by (simp add: toggle_def)
qed

lemma toggles_invariant:
  "distinct (selectedCountries st) \<Longrightarrow> length (selectedCountries st) \<le> 5 \<Longrightarrow>
   distinct (selectedCountries (foldl (\<lambda>s c. toggleCountry c s) st cs))
   \<and> length (selectedCountries (foldl (\<lambda>s c. toggleCountry c s) st cs)) \<le> 5"
proof (induction cs arbitrary: st)
  case Nil
  then show ?case by simp
next
  case (Cons c cs)
  have "distinct (selectedCountries (toggleCountry c st))"
    using Cons.prems(1) by (simp add: toggleCountry_def toggle_distinct)
  moreover have "length (selectedCountries (toggleCountry c st)) \<le> 5"
    using Cons.prems(2) by (simp add: toggleCountry_def toggle_length)
  ultimately show ?case using Cons.IH [of "toggleCountry c st"] by simp
qed

lemma loadData_selected:
  "selectedCountries (loadData Number date_of num_to_string net initial_state)
   = take 3 (countries (loadData Number date_of num_to_string net initial_state))"
  by (simp add: loadData_def load_try_def initial_state_def Let_def
      split: settled.splits sum.splits prod.splits)

text \<open>
  C4. Toggling a country that is not selected appends it when fewer than five are
  selected; when five (or more) are selected it changes nothing: the state is the same.
\<close>

theorem toggleCountry_unselected:
  assumes "c \<notin> set (selectedCountries st)"
  shows "(length (selectedCountries st) < 5 \<longrightarrow>
            selectedCountries (toggleCountry c st) = selectedCountries st @ [c])
         \<and> (\<not> length (selectedCountries st) < 5 \<longrightarrow> toggleCountry c st = st)"
  using assms by (simp add: toggleCountry_def toggle_def)

theorem toggleCountry_unselected_witness:
  "Str (str ''F'') \<notin> set (selectedCountries five_selected)
   \<and> length (selectedCountries five_selected) = 5
   \<and> toggleCountry (Str (str ''F'')) five_selected = five_selected"
proof -
  have h: "Str (str ''F'') \<notin> set (selectedCountries five_selected)"
    by (simp add: five_selected_def str_def)
  have n: "length (selectedCountries five_selected) = 5"
    by (simp add: five_selected_def)
  show ?thesis using h n toggleCountry_unselected [OF h] by simp
qed

text \<open>
  C6. Toggling a selected country removes that country and no other: the selection
  becomes the old one without it, the others in their order.
\<close>

theorem toggleCountry_selected:
  assumes "c \<in> set (selectedCountries st)"
  shows "selectedCountries (toggleCountry c st) = filter (\<lambda>x. x \<noteq> c) (selectedCountries st)
         \<and> set (selectedCountries (toggleCountry c st)) = set (selectedCountries st) - {c}"
  using assms by (auto simp: toggleCountry_def toggle_def)

theorem toggleCountry_selected_witness:
  "Str (str ''B'') \<in> set (selectedCountries five_selected)
   \<and> selectedCountries (toggleCountry (Str (str ''B'')) five_selected)
       = [Str (str ''A''), Str (str ''C''), Str (str ''D''), Str (str ''E'')]"
proof -
  have h: "Str (str ''B'') \<in> set (selectedCountries five_selected)"
    by (simp add: five_selected_def)
  show ?thesis
    using h toggleCountry_selected [OF h] by (simp add: five_selected_def str_def)
qed

text \<open>
  C10. From the state a load leaves, when the first three names of its top-5 list are
  distinct, after any sequence of toggles the selected countries are distinct and at most
  five.
\<close>

theorem toggleCountry_invariant:
  assumes "distinct (take 3 (countries (loadData Number date_of num_to_string net initial_state)))"
  shows "distinct (selectedCountries (foldl (\<lambda>s c. toggleCountry c s)
            (loadData Number date_of num_to_string net initial_state) cs))
         \<and> length (selectedCountries (foldl (\<lambda>s c. toggleCountry c s)
            (loadData Number date_of num_to_string net initial_state) cs)) \<le> 5"
proof (rule toggles_invariant)
  show "distinct (selectedCountries (loadData Number date_of num_to_string net initial_state))"
    using assms by (simp add: loadData_selected)
  show "length (selectedCountries (loadData Number date_of num_to_string net initial_state)) \<le> 5"
    by (simp add: loadData_selected)
qed

theorem toggleCountry_invariant_witness:
  "distinct (take 3 (countries (loadData Number_decimal date_sample num_to_string_sample
      net_sample initial_state)))
   \<and> distinct (selectedCountries (foldl (\<lambda>s c. toggleCountry c s)
        (loadData Number_decimal date_sample num_to_string_sample net_sample initial_state)
        [Str (str ''Japan''), Str (str ''Norway''), Str (str ''Spain'')]))
   \<and> length (selectedCountries (foldl (\<lambda>s c. toggleCountry c s)
        (loadData Number_decimal date_sample num_to_string_sample net_sample initial_state)
        [Str (str ''Japan''), Str (str ''Norway''), Str (str ''Spain'')])) \<le> 5"
proof -
  have h: "distinct (take 3 (countries (loadData Number_decimal date_sample
      num_to_string_sample net_sample initial_state)))"
    by (simp add: loadData_sample top5_sample str_def)
  show ?thesis
    using h toggleCountry_invariant [OF h] by blast
qed

end
